theory Spec2Isabelle
  imports Main "HOL-Library.AList" "HOL-Library.Sublist" "HOL-Library.Word"
begin

section \<open>Data model of \<open>src/main.ts\<close>\<close>

text \<open>
  The server keeps one process-wide \<open>Map<string, Session>\<close>. Session objects are mutable
  and are reached through references: the upload handler looks a session up once and
  keeps the object across its \<open>await\<close>s, also after the wait loop or the sweep has removed
  the identifier from the map. The model therefore separates the map (identifier to
  reference, an association list in insertion order, as a JavaScript \<open>Map\<close> iterates)
  from the heap of session objects (a list indexed by reference; a new object is appended).

  Timestamps are the integer milliseconds of \<open>Date.now()\<close>. String literals of the source
  that are not ASCII are written as their UTF-8 bytes. The field \<open>id\<close> of a session is
  \<open>session_id\<close> here and the field \<open>method\<close> of a request is \<open>rpc_method\<close>, the
  source's names being taken in HOL.
\<close>

datatype Status = Waiting | Recording | Processing | Completed | Error

record Session =
  session_id :: string
  createdAt :: int
  status :: Status
  audioData :: "8 word list option"
  result :: "string option"
  error :: "string option"

type_synonym ref = nat

record store =
  sessions :: "(string \<times> ref) list"
  heap :: "Session list"

definition empty_store :: store where
  "empty_store = \<lparr>sessions = [], heap = []\<rparr>"

text \<open>\<open>sessions.get(sessionId)\<close>: the session object's reference, if the key is present.\<close>

definition sessions_get :: "store \<Rightarrow> string \<Rightarrow> ref option" where
  "sessions_get s sid = map_of (sessions s) sid"

text \<open>\<open>sessions.delete(sessionId)\<close>.\<close>

definition sessions_delete :: "string \<Rightarrow> store \<Rightarrow> store" where
  "sessions_delete sid s = s\<lparr>sessions := AList.delete sid (sessions s)\<rparr>"

text \<open>
  \<open>sessions.set(sessionId, session)\<close> with a freshly built object: the object is allocated
  at the next free reference and the key is bound to it (replacing an older binding of the
  same key in place, as \<open>Map.prototype.set\<close> does).
\<close>

definition sessions_set_new :: "string \<Rightarrow> Session \<Rightarrow> store \<Rightarrow> store" where
  "sessions_set_new sid x s =
     \<lparr>sessions = AList.update sid (length (heap s)) (sessions s), heap = heap s @ [x]\<rparr>"

text \<open>
  A field assignment through a held reference, \<open>session.f = v\<close>. The references the
  handlers hold come from \<open>sessions.get\<close> and so point to allocated objects (see
  \<open>valid_refs_run\<close> below); on any other reference the assignment does nothing.
\<close>

definition modify :: "ref \<Rightarrow> (Session \<Rightarrow> Session) \<Rightarrow> store \<Rightarrow> store" where
  "modify r f s = s\<lparr>heap := (heap s)[r := f (heap s ! r)]\<rparr>"

text \<open>The keys of a \<open>Map\<close> are unique.\<close>

definition distinct_keys :: "store \<Rightarrow> bool" where
  "distinct_keys s = distinct (map fst (sessions s))"

section \<open>Session store: the expiry sweep\<close>

text \<open>
  \<open>cleanupOldSessions\<close> reads the clock once and walks the map, deleting every entry whose
  age is more than five minutes. The loop body is \<open>sweep_entry\<close>; the threshold is a
  parameter of \<open>sweep\<close> and the source's constant is supplied by \<open>cleanupOldSessions\<close>.
\<close>

definition sweep_entry ::
  "int \<Rightarrow> int \<Rightarrow> Session list \<Rightarrow> string \<times> ref \<Rightarrow> (string \<times> ref) list \<Rightarrow> (string \<times> ref) list" where
  "sweep_entry maxAge now h e m =
     (if now - createdAt (h ! snd e) > maxAge then AList.delete (fst e) m else m)"

definition sweep :: "int \<Rightarrow> int \<Rightarrow> store \<Rightarrow> store" where
  "sweep maxAge now s =
     s\<lparr>sessions := fold (sweep_entry maxAge now (heap s)) (sessions s) (sessions s)\<rparr>"

definition cleanupOldSessions :: "int \<Rightarrow> store \<Rightarrow> store" where
  "cleanupOldSessions now s = sweep (5 * 60 * 1000) now s"

text \<open>The age test of the sweep, on one entry of the map.\<close>

definition expired :: "int \<Rightarrow> int \<Rightarrow> Session list \<Rightarrow> string \<times> ref \<Rightarrow> bool" where
  "expired maxAge now h e = (now - createdAt (h ! snd e) > maxAge)"

section \<open>JavaScript values used by the handlers\<close>

text \<open>
  An optional string field (\<open>result?: string\<close>, an environment variable, \<open>params.name\<close>) is
  \<open>None\<close> when it is \<open>undefined\<close>. \<open>truthy\<close> is JavaScript's truth test on such a value:
  \<open>undefined\<close> and the empty string are false. \<open>template\<close> is what a template literal
  \<open>`${v}`\<close> prints.
\<close>

definition truthy :: "string option \<Rightarrow> bool" where
  "truthy v = (case v of None \<Rightarrow> False | Some t \<Rightarrow> t \<noteq> [])"

definition template :: "string option \<Rightarrow> string" where
  "template v = (case v of None \<Rightarrow> ''undefined'' | Some t \<Rightarrow> t)"

text \<open>Decimal printing of a non-negative number, as \<open>`${response.status}`\<close> prints it.\<close>

fun show_nat :: "nat \<Rightarrow> string" where
  "show_nat n =
     (if n < 10 then [char_of (48 + n)]
      else show_nat (n div 10) @ [char_of (48 + n mod 10)])"

declare show_nat.simps [simp del]

text \<open>
  A value caught by \<open>catch (error)\<close>: an \<open>Error\<close> object with its message, or anything else.
\<close>

datatype thrown = ErrorObj string | NonError

section \<open>Transcription client\<close>

text \<open>
  The network is an input of the model. \<open>fetch\<close> either rejects or resolves to a response
  with its \<open>ok\<close> flag, its status code, what \<open>response.text()\<close> gives and what
  \<open>response.json()\<close> gives. A parsed body is abstracted to what line 77 reads from it:
  \<open>NotJson m\<close> when parsing rejects with message \<open>m\<close>, \<open>JsonNull\<close> when the body is the
  JSON value \<open>null\<close> (reading \<open>.text\<close> of it throws a TypeError), and \<open>JsonValue t\<close> for
  any other JSON value, \<open>t\<close> being its \<open>text\<close> property (\<open>None\<close> when the body has no
  such property). The property is taken to be a string when present, as the declared
  return type \<open>Promise<string>\<close> says.
\<close>

datatype parsed_body = NotJson string | JsonNull | JsonValue "string option"

record FetchResponse =
  ok :: bool
  http_status :: nat
  body_text :: "thrown + string"
  body_json :: parsed_body

datatype fetch_outcome = FetchRejects thrown | Responded FetchResponse

definition null_text_message :: string where
  "null_text_message = ''Cannot read properties of null (reading 'text')''"

definition transcribeAudio ::
  "string option \<Rightarrow> fetch_outcome \<Rightarrow> 8 word list \<Rightarrow> thrown + string option" where
  "transcribeAudio apiKey net audio =
     (if \<not> truthy apiKey then Inl (ErrorObj ''SILICONFLOW_API_KEY not configured'')
      else
        (case net of
           FetchRejects e \<Rightarrow> Inl e
         | Responded response \<Rightarrow>
             if \<not> ok response then
               (case body_text response of
                  Inl e \<Rightarrow> Inl e
                | Inr errorText \<Rightarrow>
                    Inl (ErrorObj (''SiliconFlow API error: '' @ show_nat (http_status response)
                                   @ '' - '' @ errorText)))
             else
               (case body_json response of
                  NotJson m \<Rightarrow> Inl (ErrorObj m)
                | JsonNull \<Rightarrow> Inl (ErrorObj null_text_message)
                | JsonValue t \<Rightarrow> Inr t)))"

section \<open>Upload endpoint\<close>

text \<open>
  The upload branch of \<open>handler\<close> (lines 305 to 338) runs in three steps separated by its
  two \<open>await\<close>s, during which other handlers run:
  \<^item> \<open>upload_begin\<close>: look the session up; answer 404 if it is absent, otherwise set
    \<open>status = "processing"\<close> and keep the reference;
  \<^item> \<open>upload_data\<close>: the request body has arrived, \<open>session.audioData = audioData\<close>;
  \<^item> \<open>upload_end\<close>: the transcription has returned (\<open>Inr\<close>) or something has thrown
    (\<open>Inl\<close>, the \<open>catch\<close> block \<open>upload_catch\<close>).
  \<open>upload\<close> is the whole branch when nothing else runs in between.
\<close>

datatype HttpPayload = JsonError string | JsonSuccess "string option"

record HttpResponse =
  code :: nat
  payload :: HttpPayload

definition not_found_response :: HttpResponse where
  "not_found_response = \<lparr>code = 404, payload = JsonError ''Session not found''\<rparr>"

definition upload_begin :: "string \<Rightarrow> store \<Rightarrow> (HttpResponse + ref) \<times> store" where
  "upload_begin sid s =
     (case sessions_get s sid of
        None \<Rightarrow> (Inl not_found_response, s)
      | Some r \<Rightarrow> (Inr r, modify r (\<lambda>x. x\<lparr>status := Processing\<rparr>) s))"

definition upload_data :: "ref \<Rightarrow> 8 word list \<Rightarrow> store \<Rightarrow> store" where
  "upload_data r audio s = modify r (\<lambda>x. x\<lparr>audioData := Some audio\<rparr>) s"

definition catch_message :: "thrown \<Rightarrow> string" where
  "catch_message e = (case e of ErrorObj m \<Rightarrow> m | NonError \<Rightarrow> ''Unknown error'')"

definition upload_catch :: "ref \<Rightarrow> thrown \<Rightarrow> store \<Rightarrow> HttpResponse \<times> store" where
  "upload_catch r e s =
     (\<lparr>code = 500, payload = JsonError (catch_message e)\<rparr>,
      modify r (\<lambda>x. x\<lparr>status := Error, error := Some (catch_message e)\<rparr>) s)"

definition upload_end :: "ref \<Rightarrow> thrown + string option \<Rightarrow> store \<Rightarrow> HttpResponse \<times> store" where
  "upload_end r out s =
     (case out of
        Inl e \<Rightarrow> upload_catch r e s
      | Inr t \<Rightarrow>
          (\<lparr>code = 200, payload = JsonSuccess t\<rparr>,
           modify r (\<lambda>x. x\<lparr>result := t, status := Completed\<rparr>) s))"

record upload_env =
  arrayBuffer :: "thrown + 8 word list"
  apiKey :: "string option"
  network :: fetch_outcome

definition upload :: "upload_env \<Rightarrow> string \<Rightarrow> store \<Rightarrow> HttpResponse \<times> store" where
  "upload env sid s =
     (case upload_begin sid s of
        (Inl response, s1) \<Rightarrow> (response, s1)
      | (Inr r, s1) \<Rightarrow>
          (case arrayBuffer env of
             Inl e \<Rightarrow> upload_catch r e s1
           | Inr audio \<Rightarrow>
               upload_end r (transcribeAudio (apiKey env) (network env) audio)
                 (upload_data r audio s1)))"

section \<open>Protocol handler\<close>

definition expired_text :: string where
  "expired_text = map char_of
     [226, 157, 140, 32, 228, 188, 154, 232, 175, 157, 229, 183, 178, 232, 191, 135, 230,
      156, 159, 239, 188, 140, 232, 175, 183, 233, 135, 141, 232, 175, 149, 227, 128, 130 :: nat]"

definition success_prefix :: string where
  "success_prefix = map char_of
     [240, 159, 142, 164, 32, 232, 189, 172, 229, 134, 153, 231, 187, 147, 230, 158, 156,
      239, 188, 154 :: nat]"

definition unknown_error :: string where
  "unknown_error = map char_of
     [230, 156, 170, 231, 159, 165, 233, 148, 153, 232, 175, 175 :: nat]"

definition failure_prefix :: string where
  "failure_prefix = map char_of
     [226, 157, 140, 32, 232, 189, 172, 229, 134, 153, 229, 164, 177, 232, 180, 165, 239,
      188, 154 :: nat]"

definition timeout_prefix :: string where
  "timeout_prefix = map char_of
     [226, 143, 176, 32, 229, 189, 149, 233, 159, 179, 232, 182, 133, 230, 151, 182, 239,
      188, 136, 54, 48, 231, 167, 146, 239, 188, 137, 227, 128, 130, 232, 175, 183, 230,
      137, 147, 229, 188, 128, 230, 173, 164, 233, 147, 190, 230, 142, 165, 229, 189, 149,
      233, 159, 179, 239, 188, 154 :: nat]"

definition maxWait :: int where
  "maxWait = 60000"

definition create_session :: "string \<Rightarrow> int \<Rightarrow> store \<Rightarrow> store" where
  "create_session sid now s =
     sessions_set_new sid
       \<lparr>session_id = sid, createdAt = now, status = Waiting,
        audioData = None, result = None, error = None\<rparr> s"

definition record_url :: "string option \<Rightarrow> string \<Rightarrow> string" where
  "record_url deploymentId sid =
     (if truthy deploymentId then ''https://'' @ template deploymentId @ ''.deno.dev''
      else ''http://localhost:8000'') @ ''/record/'' @ sid"

text \<open>
  One iteration of the \<open>while (true)\<close> loop, lines 149 to 213: \<open>Some text\<close> when the
  iteration returns a tool result with that text, \<open>None\<close> when it goes on to the sleep.
  \<open>now\<close> is the reading of \<open>Date.now()\<close> in the timeout test.
\<close>

definition poll :: "string \<Rightarrow> string \<Rightarrow> int \<Rightarrow> int \<Rightarrow> store \<Rightarrow> string option \<times> store" where
  "poll sid recordUrl startTime now s =
     (case sessions_get s sid of
        None \<Rightarrow> (Some expired_text, s)
      | Some r \<Rightarrow>
          (let currentSession = heap s ! r in
           if status currentSession = Completed \<and> truthy (result currentSession) then
             (Some (success_prefix @ template (result currentSession)), sessions_delete sid s)
           else if status currentSession = Error then
             (Some (failure_prefix @
                (if truthy (error currentSession) then template (error currentSession)
                 else unknown_error)),
              sessions_delete sid s)
           else if now - startTime > maxWait then
             (Some (timeout_prefix @ recordUrl), sessions_delete sid s)
           else (None, s)))"

text \<open>
  What the other request handlers do to the store while a wait loop sleeps, as a list of
  steps: each event is one stretch of code between two \<open>await\<close>s. \<open>EvSweep\<close> and
  \<open>EvCreate\<close> are the start of another tool invocation and \<open>EvPoll\<close> is one iteration
  of its loop; the three upload events are the steps of the upload branch, the last two
  naming the reference that \<open>upload_begin\<close> returned. Any list of events is admitted,
  which includes every interleaving the event loop can produce.
\<close>

datatype event =
    EvSweep int
  | EvCreate string int
  | EvPoll string string int int
  | EvUploadBegin string
  | EvUploadData ref "8 word list"
  | EvUploadEnd ref "thrown + string option"

fun step :: "event \<Rightarrow> store \<Rightarrow> store" where
  "step (EvSweep now) s = cleanupOldSessions now s"
| "step (EvCreate sid now) s = create_session sid now s"
| "step (EvPoll sid recordUrl startTime now) s = snd (poll sid recordUrl startTime now s)"
| "step (EvUploadBegin sid) s = snd (upload_begin sid s)"
| "step (EvUploadData r audio) s = upload_data r audio s"
| "step (EvUploadEnd r out) s = snd (upload_end r out s)"

definition run :: "event list \<Rightarrow> store \<Rightarrow> store" where
  "run evs s = fold step evs s"

text \<open>
  The wait loop, lines 148 to 217. The iteration at clock reading \<open>now\<close> either returns or
  sleeps: \<open>setTimeout(resolve, 500)\<close> resumes the loop no earlier than 500 ms later. A round
  \<open>(extra, evs)\<close> of the schedule describes one sleep: the next iteration reads the clock at
  \<open>now + 500 + extra\<close>, and \<open>evs\<close> is what the other handlers did meanwhile. The result is
  \<open>None\<close> when the loop has not returned by the end of the schedule.
\<close>

fun wait_loop ::
  "string \<Rightarrow> string \<Rightarrow> int \<Rightarrow> int \<Rightarrow> (nat \<times> event list) list \<Rightarrow> store
     \<Rightarrow> string option \<times> store" where
  "wait_loop sid recordUrl startTime now [] s = poll sid recordUrl startTime now s"
| "wait_loop sid recordUrl startTime now ((extra, evs) # rounds) s =
     (case poll sid recordUrl startTime now s of
        (Some text, s') \<Rightarrow> (Some text, s')
      | (None, s') \<Rightarrow>
          wait_loop sid recordUrl startTime (now + 500 + int extra) rounds (run evs s'))"

datatype rpc_id = IdNumber int | IdString string

record MCPRequest =
  req_id :: "rpc_id option"
  rpc_method :: string
  params_name :: "string option"

text \<open>
  The \<open>result\<close> or \<open>error\<close> member of a response envelope. The static results of
  \<open>initialize\<close> and \<open>tools/list\<close> keep the protocol version, the server name and version,
  and the names of the tools.
\<close>

datatype MCPBody =
    InitializeResult string string string
  | ToolsListResult "string list"
  | ContentResult string
  | ErrorResult int string

record MCPResponse =
  jsonrpc :: string
  res_id :: "rpc_id option"
  body :: MCPBody

text \<open>
  What one call of \<open>handleMCPRequest\<close> takes from outside: the environment variable
  \<open>DENO_DEPLOYMENT_ID\<close>, the identifier \<open>crypto.randomUUID()\<close> returns, the readings of
  \<open>Date.now()\<close> at lines 42, 132 and 146 and in the first timeout test, and the schedule
  of the sleeps.
\<close>

record call_env =
  deploymentId :: "string option"
  newSessionId :: string
  sweepNow :: int
  createNow :: int
  startNow :: int
  firstNow :: int
  schedule :: "(nat \<times> event list) list"

definition handleMCPRequest ::
  "call_env \<Rightarrow> MCPRequest \<Rightarrow> store \<Rightarrow> MCPResponse option \<times> store" where
  "handleMCPRequest env request s =
     (if rpc_method request = ''initialize'' then
        (Some \<lparr>jsonrpc = ''2.0'', res_id = req_id request,
               body = InitializeResult ''2024-11-05'' ''opencode-voice'' ''1.0.0''\<rparr>, s)
      else if rpc_method request = ''tools/list'' then
        (Some \<lparr>jsonrpc = ''2.0'', res_id = req_id request,
               body = ToolsListResult [''voice-to-text'']\<rparr>, s)
      else if rpc_method request = ''tools/call'' then
        (if params_name request = Some ''voice-to-text'' then
           (let s1 = cleanupOldSessions (sweepNow env) s;
                sessionId = newSessionId env;
                s2 = create_session sessionId (createNow env) s1;
                recordUrl = record_url (deploymentId env) sessionId
            in case wait_loop sessionId recordUrl (startNow env) (firstNow env) (schedule env) s2 of
                 (None, s3) \<Rightarrow> (None, s3)
               | (Some text, s3) \<Rightarrow>
                   (Some \<lparr>jsonrpc = ''2.0'', res_id = req_id request,
                          body = ContentResult text\<rparr>, s3))
         else
           (Some \<lparr>jsonrpc = ''2.0'', res_id = req_id request,
                  body = ErrorResult (- 32601)
                           (''Unknown tool: '' @ template (params_name request))\<rparr>, s))
      else
        (Some \<lparr>jsonrpc = ''2.0'', res_id = req_id request,
               body = ErrorResult (- 32601) (''Method not found: '' @ rpc_method request)\<rparr>, s))"

section \<open>Notions used to state the properties\<close>

text \<open>
  The stores a wait loop looks at, one per iteration, if it keeps sleeping through the
  whole schedule (an iteration that goes on to the sleep leaves the store as it is).
\<close>

fun observed :: "(nat \<times> event list) list \<Rightarrow> store \<Rightarrow> store list" where
  "observed [] s = [s]"
| "observed ((extra, evs) # rounds) s = s # observed rounds (run evs s)"

text \<open>The clock reading of the iteration that follows the given sleeps.\<close>

fun poll_time :: "int \<Rightarrow> (nat \<times> event list) list \<Rightarrow> int" where
  "poll_time now [] = now"
| "poll_time now ((extra, evs) # rounds) = poll_time (now + 500 + int extra) rounds"

text \<open>The session is in the map and its status is neither \<open>completed\<close> nor \<open>error\<close>.\<close>

definition live :: "string \<Rightarrow> store \<Rightarrow> bool" where
  "live sid s =
     (case sessions_get s sid of
        None \<Rightarrow> False
      | Some r \<Rightarrow> status (heap s ! r) \<noteq> Completed \<and> status (heap s ! r) \<noteq> Error)"

text \<open>
  The session is in the map and neither of the loop's two result tests fires on it: the
  iteration goes on to the timeout test.
\<close>

definition pending :: "string \<Rightarrow> store \<Rightarrow> bool" where
  "pending sid s =
     (case sessions_get s sid of
        None \<Rightarrow> False
      | Some r \<Rightarrow>
          \<not> (status (heap s ! r) = Completed \<and> truthy (result (heap s ! r)))
          \<and> status (heap s ! r) \<noteq> Error)"

text \<open>The session is in the map with the status it was created with.\<close>

definition still_waiting :: "string \<Rightarrow> store \<Rightarrow> bool" where
  "still_waiting sid s =
     (case sessions_get s sid of
        None \<Rightarrow> False
      | Some r \<Rightarrow> status (heap s ! r) = Waiting)"


text \<open>
  The order of the chain \<open>waiting \<rightarrow> processing \<rightarrow> {completed, error}\<close>: \<open>forward a b\<close> when
  \<open>b\<close> is \<open>a\<close> or a later stage.
\<close>

definition forward :: "Status \<Rightarrow> Status \<Rightarrow> bool" where
  "forward a b =
     (a = b
      \<or> (a = Waiting \<and> (b = Processing \<or> b = Completed \<or> b = Error))
      \<or> (a = Processing \<and> (b = Completed \<or> b = Error)))"

text \<open>
  The step writes a field of the session object \<open>r\<close>: it is a step of an upload whose
  handler holds \<open>r\<close>.
\<close>

definition writes_to :: "event \<Rightarrow> store \<Rightarrow> ref \<Rightarrow> bool" where
  "writes_to ev s r =
     (case ev of
        EvUploadBegin sid \<Rightarrow> sessions_get s sid = Some r
      | EvUploadData r' audio \<Rightarrow> r' = r
      | EvUploadEnd r' out \<Rightarrow> r' = r
      | _ \<Rightarrow> False)"

text \<open>
  The two ways in which a step takes the status of the session object \<open>r\<close> off the chain:
  the first step of an upload for a session that is no longer \<open>waiting\<close> or \<open>processing\<close>,
  and the recording of an outcome on a session that is neither \<open>waiting\<close> nor
  \<open>processing\<close> nor already in the state the outcome leads to.
\<close>

definition leaves_chain :: "event \<Rightarrow> store \<Rightarrow> ref \<Rightarrow> bool" where
  "leaves_chain ev s r =
     (case ev of
        EvUploadBegin sid \<Rightarrow>
          sessions_get s sid = Some r
          \<and> status (heap s ! r) \<noteq> Waiting \<and> status (heap s ! r) \<noteq> Processing
      | EvUploadEnd r' out \<Rightarrow>
          r' = r \<and> status (heap s ! r) \<noteq> Waiting \<and> status (heap s ! r) \<noteq> Processing
          \<and> status (heap s ! r) \<noteq> (case out of Inl e \<Rightarrow> Error | Inr t \<Rightarrow> Completed)
      | _ \<Rightarrow> False)"

text \<open>
  How many of the events record, through reference \<open>r\<close>, a transcription that sets
  \<open>result\<close> (\<open>ok_ends\<close>; an absent text sets nothing) and how many record a failure, which
  sets \<open>error\<close> (\<open>fail_ends\<close>).
\<close>

fun ok_ends :: "ref \<Rightarrow> event list \<Rightarrow> nat" where
  "ok_ends r [] = 0"
| "ok_ends r (EvUploadEnd r' (Inr (Some t)) # evs) = (if r' = r then 1 else 0) + ok_ends r evs"
| "ok_ends r (ev # evs) = ok_ends r evs"

fun fail_ends :: "ref \<Rightarrow> event list \<Rightarrow> nat" where
  "fail_ends r [] = 0"
| "fail_ends r (EvUploadEnd r' (Inl e) # evs) = (if r' = r then 1 else 0) + fail_ends r evs"
| "fail_ends r (ev # evs) = fail_ends r evs"

text \<open>Every reference in the session map points to an allocated session object.\<close>

definition valid_refs :: "store \<Rightarrow> bool" where
  "valid_refs s = (\<forall>e\<in>set (sessions s). snd e < length (heap s))"

section \<open>Concrete inputs\<close>

text \<open>
  A tool invocation on an empty store during whose first sleep a recording is uploaded and
  transcribed as \<open>hello world\<close>.
\<close>

definition example_env :: call_env where
  "example_env =
     \<lparr>deploymentId = None, newSessionId = ''s1'', sweepNow = 1000, createNow = 1000,
      startNow = 1000, firstNow = 1000,
      schedule = [(0, [EvUploadBegin ''s1'', EvUploadData 0 [82, 73, 70, 70],
                       EvUploadEnd 0 (Inr (Some ''hello world''))])]\<rparr>"

definition voice_request :: MCPRequest where
  "voice_request = \<lparr>req_id = Some (IdNumber 1), rpc_method = ''tools/call'',
                     params_name = Some ''voice-to-text''\<rparr>"

text \<open>
  A store with three sessions created at 0, 100000 and 200000 ms, the first of them
  already completed.
\<close>

definition three_sessions :: store where
  "three_sessions =
     \<lparr>sessions = [(''old'', 0), (''edge'', 1), (''young'', 2)],
      heap = [\<lparr>session_id = ''old'', createdAt = 0, status = Completed,
                audioData = None, result = Some ''done'', error = None\<rparr>,
              \<lparr>session_id = ''edge'', createdAt = 100000, status = Processing,
                audioData = Some [82, 73], result = None, error = None\<rparr>,
              \<lparr>session_id = ''young'', createdAt = 200000, status = Waiting,
                audioData = None, result = None, error = None\<rparr>]\<rparr>"

text \<open>
  A schedule of 121 sleeps that each last exactly 500 ms; during the first one another
  session is created and gets an upload. \<open>waiting_store\<close> holds one fresh session.
\<close>

definition quiet_schedule :: "(nat \<times> event list) list" where
  "quiet_schedule =
     (0, [EvCreate ''other'' 1200, EvUploadBegin ''other'']) # replicate 120 (0, [])"

definition waiting_store :: store where
  "waiting_store = create_session ''s1'' 1000 empty_store"

text \<open>A tool invocation, on a deployment, during which nobody opens the recording link.\<close>

definition idle_env :: call_env where
  "idle_env =
     \<lparr>deploymentId = Some ''voice-abc'', newSessionId = ''s1'', sweepNow = 1000,
      createNow = 1000, startNow = 1000, firstNow = 1000,
      schedule = quiet_schedule\<rparr>"



text \<open>
  Two uploads for the fresh session \<open>s1\<close>: the transcription service answers the first
  with the text \<open>hello\<close> and fails the second with status 500.
\<close>

definition ok_upload :: upload_env where
  "ok_upload =
     \<lparr>arrayBuffer = Inr [82, 73, 70, 70], apiKey = Some ''sk-key'',
      network = Responded \<lparr>ok = True, http_status = 200, body_text = Inr ''{text: hello}'',
                            body_json = JsonValue (Some ''hello'')\<rparr>\<rparr>"

definition failing_upload :: upload_env where
  "failing_upload =
     \<lparr>arrayBuffer = Inr [82, 73, 70, 70], apiKey = Some ''sk-key'',
      network = Responded \<lparr>ok = False, http_status = 500, body_text = Inr ''busy'',
                            body_json = NotJson ''Unexpected token''\<rparr>\<rparr>"

definition completed_store :: store where
  "completed_store = snd (upload ok_upload ''s1'' waiting_store)"

definition twice_uploaded_store :: store where
  "twice_uploaded_store = snd (upload failing_upload ''s1'' completed_store)"

text \<open>
  A session is created and two uploads for it fail, the first because the API key is not
  configured; then a second session is created.
\<close>

definition failed_twice :: "event list" where
  "failed_twice =
     [EvCreate ''s1'' 1000, EvUploadBegin ''s1'', EvUploadData 0 [82, 73, 70, 70],
      EvUploadEnd 0 (Inl (ErrorObj ''SILICONFLOW_API_KEY not configured'')),
      EvUploadBegin ''s1'', EvUploadData 0 [82, 73, 70, 70],
      EvUploadEnd 0 (Inl (ErrorObj ''fetch failed'')),
      EvCreate ''s2'' 2000]"

text \<open>
  The completed session \<open>s1\<close> next to a fresh session \<open>b\<close>; and the session \<open>s1\<close> after two
  overlapping uploads of which the first to finish has succeeded.
\<close>

definition two_sessions :: store where
  "two_sessions = create_session ''b'' 2000 completed_store"

definition overlapped_store :: store where
  "overlapped_store =
     run [EvUploadBegin ''s1'', EvUploadBegin ''s1'', EvUploadData 0 [82, 73, 70, 70],
          EvUploadData 0 [82, 73, 70, 70], EvUploadEnd 0 (Inr (Some ''hello''))]
       waiting_store"

section \<open>Sweep: proofs\<close>

lemma fold_sweep_entry:
  "fold (sweep_entry T now h) xs m =
   filter (\<lambda>e. fst e \<notin> fst ` {x \<in> set xs. expired T now h x}) m"
proof (induction xs arbitrary: m)
  case Nil
  show ?case by simp
next
  case (Cons x xs)
  show ?case
  proof (cases "expired T now h x")
    case True
    have "fold (sweep_entry T now h) (x # xs) m
          = fold (sweep_entry T now h) xs (AList.delete (fst x) m)"
      using True by (simp add: sweep_entry_def expired_def)
    also have "\<dots> = filter (\<lambda>e. fst e \<notin> fst ` {x \<in> set xs. expired T now h x})
                       (filter (\<lambda>e. fst e \<noteq> fst x) m)"
      by (simp add: Cons.IH AList.delete_eq case_prod_unfold conj_commute eq_commute)
    also have "\<dots> = filter (\<lambda>e. fst e \<notin> fst ` {y \<in> set (x # xs). expired T now h y}) m"
      using True by (auto intro!: filter_cong)
    finally show ?thesis .
  next
    case False
    have "fold (sweep_entry T now h) (x # xs) m = fold (sweep_entry T now h) xs m"
      using False by (simp add: sweep_entry_def expired_def)
    also have "\<dots> = filter (\<lambda>e. fst e \<notin> fst ` {y \<in> set (x # xs). expired T now h y}) m"
      using False by (auto simp: Cons.IH intro!: filter_cong)
    finally show ?thesis .
  qed
qed

lemma sweep_sessions_filter:
  assumes "distinct (map fst m)"
  shows "fold (sweep_entry T now h) m m = filter (\<lambda>e. \<not> expired T now h e) m"
proof -
  have "fst e \<notin> fst ` {x \<in> set m. expired T now h x} \<longleftrightarrow> \<not> expired T now h e"
    if "e \<in> set m" for e
  proof
    assume "fst e \<notin> fst ` {x \<in> set m. expired T now h x}"
    with that show "\<not> expired T now h e" by blast
  next
    assume ne: "\<not> expired T now h e"
    show "fst e \<notin> fst ` {x \<in> set m. expired T now h x}"
    proof
      assume "fst e \<in> fst ` {x \<in> set m. expired T now h x}"
      then obtain x where x: "x \<in> set m" "expired T now h x" "fst x = fst e" by auto
      from assms that x(1,3) have "x = e"
        by (metis eq_key_imp_eq_value prod.collapse)
      with ne x(2) show False by simp
    qed
  qed
  then show ?thesis
    by (simp add: fold_sweep_entry cong: filter_cong)
qed

text \<open>
  Claim C6. Running the sweep with threshold \<open>T\<close> at clock reading \<open>now\<close> keeps exactly the
  map entries whose session has age \<open>now - createdAt \<le> T\<close>, in their order, and removes
  exactly those with age \<open>> T\<close>; it never looks at the status and it changes no session
  object. \<open>cleanupOldSessions\<close> is this sweep at the source's threshold of five minutes.
\<close>

theorem sweep_removes_exactly_expired:
  assumes "distinct_keys s"
  shows "sessions (sweep T now s)
           = filter (\<lambda>e. now - createdAt (heap s ! snd e) \<le> T) (sessions s)
       \<and> heap (sweep T now s) = heap s
       \<and> (\<forall>sid. sessions_get (sweep T now s) sid =
            (case sessions_get s sid of
               None \<Rightarrow> None
             | Some r \<Rightarrow> if now - createdAt (heap s ! r) > T then None else Some r))
       \<and> cleanupOldSessions now s = sweep 300000 now s"
proof -
  have f: "sessions (sweep T now s)
           = filter (\<lambda>e. now - createdAt (heap s ! snd e) \<le> T) (sessions s)"
    using assms
    by (simp add: sweep_def distinct_keys_def sweep_sessions_filter expired_def not_less)
  have g: "map_of (filter (\<lambda>e. now - createdAt (heap s ! snd e) \<le> T) m) sid =
        (case map_of m sid of
           None \<Rightarrow> None
         | Some r \<Rightarrow> if now - createdAt (heap s ! r) > T then None else Some r)"
    if "distinct (map fst m)" for m sid
    using that
  proof (induction m)
    case Nil
    show ?case by simp
  next
    case (Cons e m)
    obtain k r where e: "e = (k, r)" by (cases e)
    from Cons.prems e have nk: "map_of m k = None"
      by (simp add: map_of_eq_None_iff)
    have nk': "map_of (filter (\<lambda>e. now - createdAt (heap s ! snd e) \<le> T) m) k = None"
      using nk by (auto simp: map_of_eq_None_iff)
    from Cons show ?case
      using e nk nk' by (auto split: option.splits)
  qed
  show ?thesis
    using f g [of "sessions s"] assms
    by (simp add: sessions_get_def distinct_keys_def sweep_def cleanupOldSessions_def)
qed

text \<open>The same sweep on a concrete store: the session aged exactly \<open>T\<close> stays.\<close>

theorem sweep_removes_exactly_expired_witness:
  "distinct_keys three_sessions
   \<and> sessions (sweep 300000 400000 three_sessions) = [(''edge'', 1), (''young'', 2)]
   \<and> heap (sweep 300000 400000 three_sessions) = heap three_sessions
   \<and> cleanupOldSessions 400000 three_sessions = sweep 300000 400000 three_sessions"
proof -
  have h: "distinct_keys three_sessions"
    by (simp add: distinct_keys_def three_sessions_def)
  show ?thesis
    using h sweep_removes_exactly_expired [OF h, of 300000 400000]
    by (simp add: three_sessions_def)
qed

section \<open>Wait loop: what a return leaves behind\<close>

lemma sessions_get_delete_same: "sessions_get (sessions_delete sid s) sid = None"
  by (simp add: sessions_get_def sessions_delete_def AList.delete_conv')

lemma poll_return_absent:
  "poll sid url start now s = (Some text, s') \<Longrightarrow> sessions_get s' sid = None"
  by (auto simp: poll_def Let_def sessions_get_delete_same split: option.splits if_splits)


lemma wait_loop_return_absent:
  "wait_loop sid url start now rounds s = (Some text, s') \<Longrightarrow> sessions_get s' sid = None"
proof (induction rounds arbitrary: now s)
  case Nil
  then show ?case by (simp add: poll_return_absent)
next
  case (Cons rd rounds)
  obtain extra evs where rd: "rd = (extra, evs)" by (cases rd)
  obtain res s1 where p: "poll sid url start now s = (res, s1)" by (cases "poll sid url start now s")
  show ?case
  proof (cases res)
    case None
    with Cons.prems rd p
    have "wait_loop sid url start (now + 500 + int extra) rounds (run evs s1) = (Some text, s')"
      by simp
    then show ?thesis by (rule Cons.IH)
  next
    case (Some t)
    with Cons.prems rd p have "poll sid url start now s = (Some text, s')" by simp
    then show ?thesis by (rule poll_return_absent)
  qed
qed

text \<open>
  Claim C5. When a \<open>tools/call\<close> of \<open>voice-to-text\<close> returns the success result, the text
  of which is the success prefix followed by the transcription, the identifier generated
  for this invocation is no longer a key of the session map.
\<close>

theorem success_result_removes_session:
  assumes "rpc_method request = ''tools/call''"
      and "params_name request = Some ''voice-to-text''"
      and "handleMCPRequest env request s = (Some response, s')"
      and "body response = ContentResult (success_prefix @ t)"
  shows "sessions_get s' (newSessionId env) = None"
proof -
  let ?s2 = "create_session (newSessionId env) (createNow env) (cleanupOldSessions (sweepNow env) s)"
  let ?w = "wait_loop (newSessionId env) (record_url (deploymentId env) (newSessionId env))
              (startNow env) (firstNow env) (schedule env) ?s2"
  obtain res s3 where w: "?w = (res, s3)" by (cases ?w)
  from assms(1,2,3) w obtain msg where "res = Some msg" "s3 = s'"
    by (auto simp: handleMCPRequest_def Let_def split: option.splits)
  with w have "?w = (Some msg, s')" by simp
  then show ?thesis by (rule wait_loop_return_absent)
qed

theorem success_result_removes_session_witness:
  "handleMCPRequest example_env voice_request empty_store
     = (Some \<lparr>jsonrpc = ''2.0'', res_id = Some (IdNumber 1),
               body = ContentResult (success_prefix @ ''hello world'')\<rparr>,
        \<lparr>sessions = [],
         heap = [\<lparr>session_id = ''s1'', createdAt = 1000, status = Completed,
                  audioData = Some [82, 73, 70, 70], result = Some ''hello world'',
                  error = None\<rparr>]\<rparr>)
   \<and> sessions_get
        \<lparr>sessions = [],
         heap = [\<lparr>session_id = ''s1'', createdAt = 1000, status = Completed,
                  audioData = Some [82, 73, 70, 70], result = Some ''hello world'',
                  error = None\<rparr>]\<rparr> (newSessionId example_env) = None"
proof -
  have h: "handleMCPRequest example_env voice_request empty_store
     = (Some \<lparr>jsonrpc = ''2.0'', res_id = Some (IdNumber 1),
               body = ContentResult (success_prefix @ ''hello world'')\<rparr>,
        \<lparr>sessions = [],
         heap = [\<lparr>session_id = ''s1'', createdAt = 1000, status = Completed,
                  audioData = Some [82, 73, 70, 70], result = Some ''hello world'',
                  error = None\<rparr>]\<rparr>)"
    by code_simp
  show ?thesis
    using h success_result_removes_session [OF _ _ h, of "''hello world''"]
    by (simp add: voice_request_def)
qed

section \<open>Upload endpoint: proofs\<close>

text \<open>
  Claim C8. An upload whose identifier is not a key of the session map is answered with
  status 404 and the payload \<open>{error: "Session not found"}\<close>, and the store (map and session
  objects) is exactly what it was.
\<close>

theorem upload_unknown_session:
  "sessions_get s sid = None \<Longrightarrow>
   upload env sid s = (\<lparr>code = 404, payload = JsonError ''Session not found''\<rparr>, s)"
  by (simp add: upload_def upload_begin_def not_found_response_def)

theorem upload_unknown_session_witness:
  "sessions_get (create_session ''a'' 0 empty_store) ''b'' = None
   \<and> upload \<lparr>arrayBuffer = Inr [82, 73], apiKey = Some ''k'',
              network = FetchRejects (ErrorObj ''down'')\<rparr> ''b''
        (create_session ''a'' 0 empty_store)
     = (\<lparr>code = 404, payload = JsonError ''Session not found''\<rparr>,
        create_session ''a'' 0 empty_store)"
proof -
  have h: "sessions_get (create_session ''a'' 0 empty_store) ''b'' = None"
    by (simp add: sessions_get_def create_session_def sessions_set_new_def empty_store_def)
  show ?thesis
    using h upload_unknown_session [OF h] by simp
qed

text \<open>
  Claim C4 says that a successful response whose JSON body has no \<open>text\<close> property makes
  the transcription fail and the session end in \<open>error\<close>. The code does not look at the
  shape of the body: \<open>transcribeAudio\<close> returns \<open>undefined\<close>, the upload stores it as the
  result, sets the status to \<open>completed\<close> and answers 200 with \<open>success: true\<close>.
\<close>

theorem missing_text_field_is_reported_as_success:
  "transcribeAudio (Some ''sk-key'')
     (Responded \<lparr>ok = True, http_status = 200, body_text = Inr ''{}'',
                  body_json = JsonValue None\<rparr>) [82, 73, 70, 70] = Inr None
   \<and> upload \<lparr>arrayBuffer = Inr [82, 73, 70, 70], apiKey = Some ''sk-key'',
              network = Responded \<lparr>ok = True, http_status = 200, body_text = Inr ''{}'',
                                   body_json = JsonValue None\<rparr>\<rparr>
        ''s1'' (create_session ''s1'' 1000 empty_store)
     = (\<lparr>code = 200, payload = JsonSuccess None\<rparr>,
        \<lparr>sessions = [(''s1'', 0)],
         heap = [\<lparr>session_id = ''s1'', createdAt = 1000, status = Completed,
                  audioData = Some [82, 73, 70, 70], result = None, error = None\<rparr>]\<rparr>)"
  by code_simp

section \<open>Protocol handler: unknown tools and methods\<close>

text \<open>
  Claim C9. A \<open>tools/call\<close> whose tool name is not \<open>voice-to-text\<close> (or is absent), and a
  request whose method is none of \<open>initialize\<close>, \<open>tools/list\<close>, \<open>tools/call\<close>, gets a
  response envelope with the request's id and an error of code -32601; the handler returns
  (it does not throw or wait) and leaves the store alone.
\<close>

theorem unknown_method_or_tool:
  assumes "(rpc_method request = ''tools/call'' \<and> params_name request \<noteq> Some ''voice-to-text'')
           \<or> rpc_method request \<notin> {''initialize'', ''tools/list'', ''tools/call''}"
  shows "\<exists>msg. handleMCPRequest env request s =
           (Some \<lparr>jsonrpc = ''2.0'', res_id = req_id request, body = ErrorResult (- 32601) msg\<rparr>, s)"
  using assms by (auto simp: handleMCPRequest_def)

theorem unknown_method_or_tool_witness:
  "(\<exists>msg. handleMCPRequest example_env
       \<lparr>req_id = Some (IdNumber 7), rpc_method = ''tools/call'', params_name = Some ''speak''\<rparr>
       empty_store
     = (Some \<lparr>jsonrpc = ''2.0'', res_id = Some (IdNumber 7),
               body = ErrorResult (- 32601) msg\<rparr>, empty_store))
   \<and> (\<exists>msg. handleMCPRequest example_env
       \<lparr>req_id = None, rpc_method = ''ping'', params_name = None\<rparr> empty_store
     = (Some \<lparr>jsonrpc = ''2.0'', res_id = None,
               body = ErrorResult (- 32601) msg\<rparr>, empty_store))"
  using unknown_method_or_tool [of "\<lparr>req_id = Some (IdNumber 7), rpc_method = ''tools/call'',
            params_name = Some ''speak''\<rparr>" example_env empty_store]
        unknown_method_or_tool [of "\<lparr>req_id = None, rpc_method = ''ping'',
            params_name = None\<rparr>" example_env empty_store]
  by simp

section \<open>Wait loop: timeout\<close>

lemma live_pending: "live sid s \<Longrightarrow> pending sid s"
  by (auto simp: live_def pending_def split: option.splits)


lemma still_waiting_pending: "still_waiting sid s \<Longrightarrow> pending sid s"
  by (auto simp: still_waiting_def pending_def split: option.splits)

lemma poll_pending:
  "pending sid s \<Longrightarrow>
   poll sid url start now s =
     (if now - start > maxWait then (Some (timeout_prefix @ url), sessions_delete sid s)
      else (None, s))"
  by (auto simp: pending_def poll_def Let_def split: option.splits)


lemma poll_time_sum:
  "poll_time now rounds = now + (\<Sum>e\<leftarrow>rounds. 500 + int (fst e))"
  by (induction rounds arbitrary: now) auto

lemma poll_time_append:
  "poll_time now (xs @ ys) = poll_time (poll_time now xs) ys"
  by (simp add: poll_time_sum)

lemma poll_time_lower: "now + 500 * int (length rounds) \<le> poll_time now rounds"
proof -
  have "500 * int (length rounds) \<le> (\<Sum>e\<leftarrow>rounds. 500 + int (fst e))"
    by (induction rounds) auto
  then show ?thesis by (simp add: poll_time_sum)
qed

lemma poll_time_mono: "now \<le> poll_time now rounds"
  using poll_time_lower [of now rounds] by simp

lemma poll_time_exact:
  "\<forall>e\<in>set rounds. fst e = 0 \<Longrightarrow> poll_time now rounds = now + 500 * int (length rounds)"
  by (induction rounds arbitrary: now) (auto simp: algebra_simps)

lemma poll_time_take_le:
  "poll_time now (take k rounds) \<le> poll_time now rounds"
proof -
  have "poll_time now rounds = poll_time (poll_time now (take k rounds)) (drop k rounds)"
    by (simp flip: poll_time_append)
  then show ?thesis using poll_time_mono [of "poll_time now (take k rounds)" "drop k rounds"]
    by simp
qed

lemma poll_time_take_Suc:
  "k < length rounds \<Longrightarrow>
   poll_time now (take (Suc k) rounds) = poll_time now (take k rounds) + 500 + int (fst (rounds ! k))"
  by (simp add: take_Suc_conv_app_nth poll_time_append split: prod.splits)
     (cases "rounds ! k", simp)

lemma observed_nonempty [simp]: "observed rounds s \<noteq> []"
  by (cases rounds) auto

lemma observed_take: "set (observed (take k rounds) s) \<subseteq> set (observed rounds s)"
proof (induction rounds arbitrary: k s)
  case Nil
  show ?case by simp
next
  case (Cons rd rounds)
  obtain extra evs where rd: "rd = (extra, evs)" by (cases rd)
  show ?case
  proof (cases k)
    case 0
    then show ?thesis using rd by simp
  next
    case (Suc k')
    then show ?thesis using rd Cons.IH [of k' "run evs s"] by auto
  qed
qed

lemma wait_loop_keeps_polling:
  "\<forall>s'\<in>set (observed rounds s). pending sid s' \<Longrightarrow>
   poll_time now rounds - start \<le> maxWait \<Longrightarrow>
   wait_loop sid url start now rounds s = (None, last (observed rounds s))"
proof (induction rounds arbitrary: now s)
  case Nil
  then show ?case by (simp add: poll_pending)
next
  case (Cons rd rounds)
  obtain extra evs where rd: "rd = (extra, evs)" by (cases rd)
  from Cons.prems(1) rd have p: "pending sid s" by simp
  from Cons.prems(2) rd have le: "poll_time (now + 500 + int extra) rounds - start \<le> maxWait"
    by simp
  have "now \<le> poll_time (now + 500 + int extra) rounds"
    using poll_time_mono [of "now + 500 + int extra" rounds] by simp
  with le have "\<not> now - start > maxWait" by simp
  with p have "poll sid url start now s = (None, s)" by (simp add: poll_pending)
  moreover have "wait_loop sid url start (now + 500 + int extra) rounds (run evs s)
                 = (None, last (observed rounds (run evs s)))"
    using Cons.prems(1) rd le by (intro Cons.IH) auto
  ultimately show ?case using rd by simp
qed

lemma wait_loop_times_out:
  "\<forall>s'\<in>set (observed rounds s). pending sid s' \<Longrightarrow>
   poll_time now rounds - start > maxWait \<Longrightarrow>
   fst (wait_loop sid url start now rounds s) = Some (timeout_prefix @ url)"
proof (induction rounds arbitrary: now s)
  case Nil
  then show ?case by (simp add: poll_pending)
next
  case (Cons rd rounds)
  obtain extra evs where rd: "rd = (extra, evs)" by (cases rd)
  from Cons.prems(1) rd have p: "pending sid s" by simp
  show ?case
  proof (cases "now - start > maxWait")
    case True
    with p rd show ?thesis by (simp add: poll_pending)
  next
    case False
    with p have "poll sid url start now s = (None, s)" by (simp add: poll_pending)
    moreover have "fst (wait_loop sid url start (now + 500 + int extra) rounds (run evs s))
                   = Some (timeout_prefix @ url)"
      using Cons.prems rd by (intro Cons.IH) auto
    ultimately show ?thesis using rd by simp
  qed
qed

text \<open>
  Claim C7. In a \<open>voice-to-text\<close> invocation during which the session stays as it was
  created (in the map, status \<open>waiting\<close>: nothing is uploaded for it) at every iteration,
  the handler returns the timeout result once the ceiling has passed (121 sleeps are
  enough), and its text is the timeout message followed by the recording link computed
  before the loop, which ends in \<open>/record/\<close> and the session identifier.
\<close>

theorem timeout_keeps_recording_link:
  assumes "rpc_method request = ''tools/call''"
      and "params_name request = Some ''voice-to-text''"
      and idle: "\<forall>s'\<in>set (observed (schedule env)
                   (create_session (newSessionId env) (createNow env)
                      (cleanupOldSessions (sweepNow env) s))).
                 still_waiting (newSessionId env) s'"
      and clock: "startNow env \<le> firstNow env"
      and enough: "121 \<le> length (schedule env)"
  shows "\<exists>s'. handleMCPRequest env request s =
           (Some \<lparr>jsonrpc = ''2.0'', res_id = req_id request,
                  body = ContentResult
                    (timeout_prefix @ record_url (deploymentId env) (newSessionId env))\<rparr>, s')
         \<and> sublist (record_url (deploymentId env) (newSessionId env))
              (timeout_prefix @ record_url (deploymentId env) (newSessionId env))
         \<and> sublist (''/record/'' @ newSessionId env)
              (record_url (deploymentId env) (newSessionId env))"
proof -
  let ?sid = "newSessionId env"
  let ?url = "record_url (deploymentId env) ?sid"
  let ?s2 = "create_session ?sid (createNow env) (cleanupOldSessions (sweepNow env) s)"
  let ?w = "wait_loop ?sid ?url (startNow env) (firstNow env) (schedule env) ?s2"
  have "firstNow env + 500 * int (length (schedule env)) \<le> poll_time (firstNow env) (schedule env)"
    by (rule poll_time_lower)
  with clock enough have "maxWait < poll_time (firstNow env) (schedule env) - startNow env"
    by (simp add: maxWait_def)
  moreover from idle have "\<forall>s'\<in>set (observed (schedule env) ?s2). pending ?sid s'"
    by (auto intro: still_waiting_pending)
  ultimately have "fst ?w = Some (timeout_prefix @ ?url)"
    by (intro wait_loop_times_out)
  then obtain s3 where "?w = (Some (timeout_prefix @ ?url), s3)"
    by (cases ?w) auto
  with assms(1,2) have "handleMCPRequest env request s =
           (Some \<lparr>jsonrpc = ''2.0'', res_id = req_id request,
                  body = ContentResult (timeout_prefix @ ?url)\<rparr>, s3)"
    by (simp add: handleMCPRequest_def Let_def)
  moreover have "sublist ?url (timeout_prefix @ ?url)"
    by (rule sublist_append_leftI)
  moreover have "sublist (''/record/'' @ ?sid) ?url"
    unfolding record_url_def by (rule sublist_append_leftI)
  ultimately show ?thesis by blast
qed

theorem timeout_keeps_recording_link_witness:
  "rpc_method voice_request = ''tools/call''
   \<and> params_name voice_request = Some ''voice-to-text''
   \<and> list_all (still_waiting (newSessionId idle_env))
         (observed (schedule idle_env)
            (create_session (newSessionId idle_env) (createNow idle_env)
               (cleanupOldSessions (sweepNow idle_env) empty_store)))
   \<and> startNow idle_env \<le> firstNow idle_env
   \<and> 121 \<le> length (schedule idle_env)
   \<and> (\<exists>s'. handleMCPRequest idle_env voice_request empty_store =
           (Some \<lparr>jsonrpc = ''2.0'', res_id = Some (IdNumber 1),
                  body = ContentResult
                    (timeout_prefix @ ''https://voice-abc.deno.dev/record/s1'')\<rparr>, s'))
   \<and> sublist ''https://voice-abc.deno.dev/record/s1''
        (timeout_prefix @ ''https://voice-abc.deno.dev/record/s1'')"
proof -
  have h1: "rpc_method voice_request = ''tools/call''"
    by (simp add: voice_request_def)
  have h2: "params_name voice_request = Some ''voice-to-text''"
    by (simp add: voice_request_def)
  have h3: "\<forall>s'\<in>set (observed (schedule idle_env)
            (create_session (newSessionId idle_env) (createNow idle_env)
               (cleanupOldSessions (sweepNow idle_env) empty_store))).
          still_waiting (newSessionId idle_env) s'"
    by code_simp
  have h4: "startNow idle_env \<le> firstNow idle_env"
    by (simp add: idle_env_def)
  have h5: "121 \<le> length (schedule idle_env)"
    by (simp add: idle_env_def quiet_schedule_def)
  have u: "record_url (deploymentId idle_env) (newSessionId idle_env)
           = ''https://voice-abc.deno.dev/record/s1''"
    by (simp add: record_url_def idle_env_def truthy_def template_def)
  have r: "req_id voice_request = Some (IdNumber 1)"
    by (simp add: voice_request_def)
  show ?thesis
    unfolding list_all_iff
    using h1 h2 h3 h4 h5 timeout_keeps_recording_link [OF h1 h2 h3 h4 h5]
    unfolding u r by blast
qed

section \<open>Wait loop: the guard of the success branch\<close>










section \<open>Session fields under the operations\<close>

lemma nth_heap_modify:
  "r < length (heap s) \<Longrightarrow>
   heap (modify r' f s) ! r = (if r' = r then f (heap s ! r) else heap s ! r)"
  by (simp add: modify_def)

lemma length_heap_modify: "length (heap (modify r f s)) = length (heap s)"
  by (simp add: modify_def)

lemma sessions_modify: "sessions (modify r f s) = sessions s"
  by (simp add: modify_def)

lemma heap_poll: "heap (snd (poll sid url start now s)) = heap s"
  by (simp add: poll_def Let_def sessions_delete_def split: option.splits)

lemma heap_cleanup: "heap (cleanupOldSessions now s) = heap s"
  by (simp add: cleanupOldSessions_def sweep_def)

lemma heap_create:
  "heap (create_session sid now s) =
     heap s @ [\<lparr>session_id = sid, createdAt = now, status = Waiting,
                audioData = None, result = None, error = None\<rparr>]"
  by (simp add: create_session_def sessions_set_new_def)

lemma run_Nil [simp]: "run [] s = s"
  by (simp add: run_def)

lemma run_snoc: "run (evs @ [ev]) s = step ev (run evs s)"
  by (simp add: run_def)

lemma set_update_subset: "set (AList.update k v al) \<subseteq> insert (k, v) (set al)"
  by (induction al) auto

lemma set_delete_subset: "set (AList.delete k al) \<subseteq> set al"
  by (auto simp: AList.delete_eq)

lemma sessions_cleanup_subset: "set (sessions (cleanupOldSessions now s)) \<subseteq> set (sessions s)"
  by (auto simp: cleanupOldSessions_def sweep_def fold_sweep_entry)

lemma sessions_poll_subset:
  "set (sessions (snd (poll sid url start now s))) \<subseteq> set (sessions s)"
  using set_delete_subset [of sid "sessions s"]
  by (auto simp: poll_def Let_def sessions_delete_def split: option.splits)

lemma valid_refs_step: "valid_refs s \<Longrightarrow> valid_refs (step ev s)"
proof (cases ev)
  case (EvSweep now)
  assume "valid_refs s"
  with EvSweep show ?thesis
    using sessions_cleanup_subset [of now s]
    by (auto simp: valid_refs_def heap_cleanup)
next
  case (EvCreate sid now)
  assume "valid_refs s"
  with EvCreate show ?thesis
    using set_update_subset [of sid "length (heap s)" "sessions s"]
    by (fastforce simp: valid_refs_def create_session_def sessions_set_new_def)
next
  case (EvPoll sid url start now)
  assume "valid_refs s"
  with EvPoll show ?thesis
    using sessions_poll_subset [of sid url start now s]
    by (auto simp: valid_refs_def heap_poll)
next
  case (EvUploadBegin sid)
  assume "valid_refs s"
  with EvUploadBegin show ?thesis
    by (auto simp: valid_refs_def upload_begin_def sessions_modify length_heap_modify
          split: option.splits)
next
  case (EvUploadData r audio)
  assume "valid_refs s"
  with EvUploadData show ?thesis
    by (auto simp: valid_refs_def upload_data_def sessions_modify length_heap_modify)
next
  case (EvUploadEnd r out)
  assume "valid_refs s"
  with EvUploadEnd show ?thesis
    by (cases out)
       (auto simp: valid_refs_def upload_end_def upload_catch_def sessions_modify
          length_heap_modify)
qed

lemma valid_refs_run: "valid_refs (run evs empty_store)"
proof (induction evs rule: rev_induct)
  case Nil
  show ?case by (simp add: valid_refs_def empty_store_def)
next
  case (snoc ev evs)
  then show ?case by (simp add: run_snoc valid_refs_step)
qed

text \<open>
  Claim C1, as amended. A step that does not write to a session (the sweep, the creation of
  a session, an iteration of a wait loop, a step of an upload for another session) leaves
  the session object as it is. The status of a session moves forward along
  \<open>waiting \<rightarrow> processing \<rightarrow> {completed, error}\<close>, or stays, under every step except exactly
  these two, both of the upload branch, which never tests the status: its first step for
  a session that is not \<open>waiting\<close> or \<open>processing\<close> (the status becomes \<open>processing\<close>),
  and the recording of an outcome on a session that is neither \<open>waiting\<close> nor \<open>processing\<close>
  nor already in the state the outcome leads to.
\<close>

theorem status_moves_forward:
  assumes "r < length (heap s)"
  shows "r < length (heap (step ev s))
       \<and> (\<not> writes_to ev s r \<longrightarrow> heap (step ev s) ! r = heap s ! r)
       \<and> (forward (status (heap s ! r)) (status (heap (step ev s) ! r))
            \<longleftrightarrow> \<not> leaves_chain ev s r)"
proof (cases ev)
  case (EvSweep now)
  with assms show ?thesis
    by (simp add: heap_cleanup forward_def writes_to_def leaves_chain_def)
next
  case (EvCreate sid now)
  with assms show ?thesis
    by (simp add: heap_create nth_append forward_def writes_to_def leaves_chain_def)
next
  case (EvPoll sid url start now)
  with assms show ?thesis
    by (simp add: heap_poll forward_def writes_to_def leaves_chain_def)
next
  case (EvUploadBegin sid)
  show ?thesis
  proof (cases "sessions_get s sid")
    case None
    with EvUploadBegin assms show ?thesis
      by (simp add: upload_begin_def forward_def writes_to_def leaves_chain_def)
  next
    case (Some r')
    with EvUploadBegin assms show ?thesis
      by (cases "status (heap s ! r)")
         (auto simp: upload_begin_def nth_heap_modify length_heap_modify forward_def
            writes_to_def leaves_chain_def)
  qed
next
  case (EvUploadData r' audio)
  with assms show ?thesis
    by (auto simp: upload_data_def nth_heap_modify length_heap_modify forward_def
          writes_to_def leaves_chain_def)
next
  case (EvUploadEnd r' out)
  with assms show ?thesis
    by (cases out; cases "status (heap s ! r)")
       (auto simp: upload_end_def upload_catch_def nth_heap_modify length_heap_modify
          forward_def writes_to_def leaves_chain_def)
qed

theorem status_moves_forward_witness:
  "0 < length (heap waiting_store)
   \<and> \<not> leaves_chain (EvUploadBegin ''s1'') waiting_store 0
   \<and> status (heap waiting_store ! 0) = Waiting
   \<and> status (heap (step (EvUploadBegin ''s1'') waiting_store) ! 0) = Processing
   \<and> forward (status (heap waiting_store ! 0))
        (status (heap (step (EvUploadBegin ''s1'') waiting_store) ! 0))
   \<and> 0 < length (heap two_sessions)
   \<and> status (heap two_sessions ! 0) = Completed
   \<and> \<not> writes_to (EvUploadBegin ''b'') two_sessions 0
   \<and> heap (step (EvUploadBegin ''b'') two_sessions) ! 0 = heap two_sessions ! 0
   \<and> leaves_chain (EvUploadBegin ''s1'') two_sessions 0
   \<and> \<not> forward (status (heap two_sessions ! 0))
          (status (heap (step (EvUploadBegin ''s1'') two_sessions) ! 0))"
proof -
  have h1: "0 < length (heap waiting_store)" by code_simp
  have h2: "\<not> leaves_chain (EvUploadBegin ''s1'') waiting_store 0" by code_simp
  have h3: "status (heap waiting_store ! 0) = Waiting" by code_simp
  have h4: "status (heap (step (EvUploadBegin ''s1'') waiting_store) ! 0) = Processing"
    by code_simp
  have k1: "0 < length (heap two_sessions)" by code_simp
  have k2: "status (heap two_sessions ! 0) = Completed" by code_simp
  have k3: "\<not> writes_to (EvUploadBegin ''b'') two_sessions 0" by code_simp
  have k4: "leaves_chain (EvUploadBegin ''s1'') two_sessions 0" by code_simp
  note A = status_moves_forward [OF h1, of "EvUploadBegin ''s1''"]
  note B = status_moves_forward [OF k1, of "EvUploadBegin ''b''"]
  note C = status_moves_forward [OF k1, of "EvUploadBegin ''s1''"]
  from A h2 have a: "forward (status (heap waiting_store ! 0))
        (status (heap (step (EvUploadBegin ''s1'') waiting_store) ! 0))" by blast
  from B k3 have b: "heap (step (EvUploadBegin ''b'') two_sessions) ! 0 = heap two_sessions ! 0"
    by blast
  from C k4 have c: "\<not> forward (status (heap two_sessions ! 0))
          (status (heap (step (EvUploadBegin ''s1'') two_sessions) ! 0))" by blast
  from h1 h2 h3 h4 a k1 k2 k3 b k4 c show ?thesis by blast
qed

text \<open>
  The claim as stated allows no exception. An upload for a session that is already
  completed sets the status back to \<open>processing\<close>; and when two uploads for one session
  overlap, the failure of the second takes the session from \<open>completed\<close> to \<open>error\<close>.
\<close>

theorem status_regression_counterexample:
  "sessions_get completed_store ''s1'' = Some 0
   \<and> status (heap completed_store ! 0) = Completed
   \<and> fst (upload_begin ''s1'' completed_store) = Inr 0
   \<and> status (heap (snd (upload_begin ''s1'' completed_store)) ! 0) = Processing
   \<and> \<not> forward Completed Processing
   \<and> sessions_get overlapped_store ''s1'' = Some 0
   \<and> status (heap overlapped_store ! 0) = Completed
   \<and> status (heap (snd (upload_end 0 (Inl (ErrorObj ''fetch failed'')) overlapped_store)) ! 0)
       = Error
   \<and> \<not> forward Completed Error"
  by code_simp

section \<open>The outcome fields along a run\<close>

lemma ok_ends_append: "ok_ends r (xs @ ys) = ok_ends r xs + ok_ends r ys"
  by (induction r xs rule: ok_ends.induct) auto

lemma fail_ends_append: "fail_ends r (xs @ ys) = fail_ends r xs + fail_ends r ys"
  by (induction r xs rule: fail_ends.induct) auto

text \<open>What one step does to the two outcome fields of a session object.\<close>

text \<open>What one step does to the two outcome fields of a session object.\<close>

lemma step_outcome_fields:
  assumes "r < length (heap s)"
  shows "r < length (heap (step ev s))
       \<and> (ok_ends r [ev] = 0 \<longrightarrow>
            result (heap (step ev s) ! r) = result (heap s ! r)
            \<or> result (heap (step ev s) ! r) = None)
       \<and> (fail_ends r [ev] = 0 \<longrightarrow>
            error (heap (step ev s) ! r) = error (heap s ! r))"
proof (cases ev)
  case (EvSweep now)
  with assms show ?thesis by (simp add: heap_cleanup)
next
  case (EvCreate sid now)
  with assms show ?thesis by (simp add: heap_create nth_append)
next
  case (EvPoll sid url start now)
  with assms show ?thesis by (simp add: heap_poll)
next
  case (EvUploadBegin sid)
  with assms show ?thesis
    by (cases "sessions_get s sid")
       (auto simp: upload_begin_def nth_heap_modify length_heap_modify)
next
  case (EvUploadData r' audio)
  with assms show ?thesis
    by (auto simp: upload_data_def nth_heap_modify length_heap_modify)
next
  case (EvUploadEnd r' out)
  show ?thesis
  proof (cases out)
    case (Inl e)
    with EvUploadEnd assms show ?thesis
      by (auto simp: upload_end_def upload_catch_def nth_heap_modify length_heap_modify)
  next
    case (Inr t)
    with EvUploadEnd assms show ?thesis
      by (cases t)
         (auto simp: upload_end_def nth_heap_modify length_heap_modify)
  qed
qed

lemma step_new_object:
  assumes "r < length (heap (step ev s))" and "\<not> r < length (heap s)"
  shows "result (heap (step ev s) ! r) = None \<and> error (heap (step ev s) ! r) = None"
proof (cases ev)
  case (EvSweep now)
  with assms show ?thesis by (simp add: heap_cleanup)
next
  case (EvCreate sid now)
  with assms have "r = length (heap s)" by (simp add: heap_create)
  with EvCreate show ?thesis by (simp add: heap_create)
next
  case (EvPoll sid url start now)
  with assms show ?thesis by (simp add: heap_poll)
next
  case (EvUploadBegin sid)
  with assms show ?thesis
    by (cases "sessions_get s sid") (auto simp: upload_begin_def length_heap_modify)
next
  case (EvUploadData r' audio)
  with assms show ?thesis by (auto simp: upload_data_def length_heap_modify)
next
  case (EvUploadEnd r' out)
  with assms show ?thesis
    by (cases out) (auto simp: upload_end_def upload_catch_def length_heap_modify)
qed

lemma outcome_fields_invariant:
  "r < length (heap (run evs empty_store)) \<Longrightarrow>
   (ok_ends r evs = 0 \<longrightarrow> result (heap (run evs empty_store) ! r) = None)
   \<and> (fail_ends r evs = 0 \<longrightarrow> error (heap (run evs empty_store) ! r) = None)"
proof (induction evs rule: rev_induct)
  case Nil
  then show ?case by (simp add: empty_store_def)
next
  case (snoc ev evs)
  let ?s = "run evs empty_store"
  show ?case
  proof (cases "r < length (heap ?s)")
    case False
    with snoc.prems show ?thesis
      using step_new_object [of r ev ?s] by (simp add: run_snoc)
  next
    case True
    note IH = snoc.IH [OF True]
    note st = step_outcome_fields [OF True, of ev]
    show ?thesis
    proof (intro conjI impI)
      assume "ok_ends r (evs @ [ev]) = 0"
      then have "ok_ends r evs = 0" "ok_ends r [ev] = 0"
        by (simp_all add: ok_ends_append)
      with IH st show "result (heap (run (evs @ [ev]) empty_store) ! r) = None"
        by (auto simp: run_snoc)
    next
      assume "fail_ends r (evs @ [ev]) = 0"
      then have "fail_ends r evs = 0" "fail_ends r [ev] = 0"
        by (simp_all add: fail_ends_append)
      with IH st show "error (heap (run (evs @ [ev]) empty_store) ! r) = None"
        by (auto simp: run_snoc)
    qed
  qed
qed

text \<open>
  Claim C2, as amended. Start from the empty store and let any sequence of steps run
  (creations, sweeps, wait-loop iterations with their deletions, steps of uploads). For
  every session in the map, \<open>result\<close> is set only if a transcription has been recorded on
  that session and \<open>error\<close> only if a failure has been. So \<open>result\<close> and \<open>error\<close> are
  not both set unless both a transcription and a failure have been recorded on the same
  session; however many failures alone, or transcriptions alone, leave one of them unset.
\<close>

theorem result_and_error_exclusive:
  assumes "sessions_get (run evs empty_store) sid = Some r"
  shows "r < length (heap (run evs empty_store))
       \<and> (result (heap (run evs empty_store) ! r) \<noteq> None \<longrightarrow> 0 < ok_ends r evs)
       \<and> (error (heap (run evs empty_store) ! r) \<noteq> None \<longrightarrow> 0 < fail_ends r evs)
       \<and> (ok_ends r evs = 0 \<or> fail_ends r evs = 0 \<longrightarrow>
            result (heap (run evs empty_store) ! r) = None
            \<or> error (heap (run evs empty_store) ! r) = None)"
proof -
  from assms have "(sid, r) \<in> set (sessions (run evs empty_store))"
    by (simp add: sessions_get_def map_of_SomeD)
  with valid_refs_run [of evs] have "r < length (heap (run evs empty_store))"
    by (auto simp: valid_refs_def)
  with outcome_fields_invariant [of r evs] show ?thesis by auto
qed

theorem result_and_error_exclusive_witness:
  "sessions_get (run failed_twice empty_store) ''s1'' = Some 0
   \<and> ok_ends 0 failed_twice = 0
   \<and> fail_ends 0 failed_twice = 2
   \<and> result (heap (run failed_twice empty_store) ! 0) = None
   \<and> error (heap (run failed_twice empty_store) ! 0) = Some ''fetch failed''"
proof -
  have h1: "sessions_get (run failed_twice empty_store) ''s1'' = Some 0" by code_simp
  have h2: "ok_ends 0 failed_twice = 0" by code_simp
  have h3: "fail_ends 0 failed_twice = 2" by code_simp
  have h4: "error (heap (run failed_twice empty_store) ! 0) = Some ''fetch failed''"
    by code_simp
  from result_and_error_exclusive [OF h1] h2 h4
  have "result (heap (run failed_twice empty_store) ! 0) = None" by simp
  with h1 h2 h3 h4 show ?thesis by simp
qed

text \<open>
  The claim as stated makes no exception for a session that has had both. Neither path of
  the upload clears the field the other path writes: after a first upload has succeeded
  and a second one for the same identifier has failed, the session in the map carries both
  the transcription and the error message.
\<close>

theorem result_and_error_counterexample:
  "sessions_get twice_uploaded_store ''s1'' = Some 0
   \<and> result (heap twice_uploaded_store ! 0) = Some ''hello''
   \<and> error (heap twice_uploaded_store ! 0) = Some ''SiliconFlow API error: 500 - busy''
   \<and> truthy (result (heap twice_uploaded_store ! 0))
   \<and> truthy (error (heap twice_uploaded_store ! 0))"
  by code_simp

section \<open>Wait loop: the elapsed time at the timeout\<close>

text \<open>
  A schedule of 121 sleeps reaches past the ceiling, whatever their lateness, when the
  first test does not read the clock before the start reading.
\<close>

lemma schedule_reaches_ceiling:
  assumes "start \<le> now0" and "121 \<le> length rounds"
  shows "maxWait < poll_time now0 rounds - start"
proof -
  have "now0 + 500 * int (length rounds) \<le> poll_time now0 rounds"
    by (rule poll_time_lower)
  with assms show ?thesis by (simp add: maxWait_def)
qed

text \<open>
  Claim C3, as amended. Take a run of the wait loop (ceiling \<open>maxWait\<close> = 60000 ms, sleeps
  of 500 ms each resuming at most \<open>J\<close> ms late, the first timeout test reading the clock at
  any \<open>now0\<close>) in which the session is in the map and neither completed nor in error at
  every iteration, and let the schedule reach past the ceiling. The loop returns the
  timeout result at the first iteration whose elapsed time is more than the ceiling and
  not earlier: the elapsed time \<open>e\<close> at the return satisfies \<open>C < e\<close>, and
  \<open>e \<le> C + P + J\<close> whenever the first test happens within the ceiling. At most 121 sleeps
  pass if the clock does not run backwards between the two first readings. When the first
  test reads the start time itself and no sleep is late, the return comes after exactly
  121 sleeps, at \<open>C + P\<close> = 60500 ms: the test is \<open>elapsed > maxWait\<close>, so the iteration at
  exactly 60000 ms goes back to sleep.
\<close>

theorem timeout_elapsed:
  assumes alive: "\<forall>s'\<in>set (observed rounds s). live sid s'"
      and jitter: "\<forall>e\<in>set rounds. fst e \<le> J"
      and enough: "maxWait < poll_time now0 rounds - start"
  shows "\<exists>k\<le>length rounds.
           fst (wait_loop sid url start now0 (take k rounds) s) = Some (timeout_prefix @ url)
         \<and> (\<forall>j<k. fst (wait_loop sid url start now0 (take j rounds) s) = None)
         \<and> maxWait < poll_time now0 (take k rounds) - start
         \<and> (now0 - start \<le> maxWait \<longrightarrow>
              poll_time now0 (take k rounds) - start \<le> maxWait + 500 + int J)
         \<and> (start \<le> now0 \<longrightarrow> k \<le> 121)
         \<and> (now0 = start \<and> J = 0 \<longrightarrow>
              k = 121 \<and> poll_time now0 (take k rounds) - start = maxWait + 500)
         \<and> fst (wait_loop sid url start now0 rounds s) = Some (timeout_prefix @ url)"
proof -
  define el where "el k = poll_time now0 (take k rounds) - start" for k
  have pend: "\<forall>s'\<in>set (observed (take k rounds) s). pending sid s'" for k
    using alive observed_take [of k rounds s] by (auto intro: live_pending)
  have el0: "el 0 = now0 - start" by (simp add: el_def)
  have el_all: "maxWait < el (length rounds)" using enough by (simp add: el_def)
  define k where "k = (LEAST k. maxWait < el k)"
  have k: "maxWait < el k" unfolding k_def using el_all by (rule LeastI)
  have k_le: "k \<le> length rounds" unfolding k_def using el_all by (rule Least_le)
  have below: "el j \<le> maxWait" if "j < k" for j
    using that not_less_Least [of j "\<lambda>k. maxWait < el k"] by (auto simp: k_def)
  have upper: "el k \<le> maxWait + 500 + int J" if first: "now0 - start \<le> maxWait"
  proof -
    have "k \<noteq> 0"
    proof
      assume "k = 0"
      with k el0 first show False by simp
    qed
    then obtain k' where k': "k = Suc k'" by (cases k) auto
    with k_le have lt: "k' < length rounds" by simp
    then have "el k = el k' + 500 + int (fst (rounds ! k'))"
      by (simp add: el_def k' poll_time_take_Suc)
    moreover from lt jitter have "fst (rounds ! k') \<le> J" by simp
    ultimately show ?thesis using below [of k'] k' by simp
  qed
  have k121: "k \<le> 121" if "start \<le> now0"
  proof (rule ccontr)
    assume "\<not> k \<le> 121"
    then have gt: "121 < k" by simp
    with k_le have "length (take 121 rounds) = 121" by simp
    moreover have "now0 + 500 * int (length (take 121 rounds)) \<le> poll_time now0 (take 121 rounds)"
      by (rule poll_time_lower)
    ultimately have "maxWait < el 121" using that by (simp add: el_def maxWait_def)
    with below [OF gt] show False by simp
  qed
  have ret: "fst (wait_loop sid url start now0 (take k rounds) s) = Some (timeout_prefix @ url)"
    using pend k by (intro wait_loop_times_out) (auto simp: el_def)
  have before: "fst (wait_loop sid url start now0 (take j rounds) s) = None" if "j < k" for j
    using wait_loop_keeps_polling [of "take j rounds" s sid now0 start url] pend below [OF that]
    by (simp add: el_def)
  from alive enough
  have whole: "fst (wait_loop sid url start now0 rounds s) = Some (timeout_prefix @ url)"
    by (intro wait_loop_times_out) (auto intro: live_pending)
  have exact: "k = 121 \<and> el k = maxWait + 500" if "now0 = start \<and> J = 0"
  proof -
    from that jitter have z: "\<forall>e\<in>set (take k rounds). fst e = 0"
      by (auto dest: in_set_takeD)
    have "el k = now0 - start + 500 * int (length (take k rounds))"
      using poll_time_exact [OF z, of now0] by (simp add: el_def)
    with k_le that have "el k = 500 * int k" by simp
    moreover from that have "k \<le> 121" by (intro k121) simp
    ultimately show ?thesis using k by (simp add: maxWait_def)
  qed
  show ?thesis
    using k_le ret before k upper k121 exact whole unfolding el_def by blast
qed

theorem timeout_elapsed_witness:
  "list_all (live ''s1'') (observed quiet_schedule waiting_store)
   \<and> list_all (\<lambda>e. fst e \<le> 0) quiet_schedule
   \<and> maxWait < poll_time 1000 quiet_schedule - 1000
   \<and> (\<exists>k\<le>121.
         fst (wait_loop ''s1'' ''http://localhost:8000/record/s1'' 1000 1000
                (take k quiet_schedule) waiting_store)
           = Some (timeout_prefix @ ''http://localhost:8000/record/s1'')
       \<and> (\<forall>j<k. fst (wait_loop ''s1'' ''http://localhost:8000/record/s1'' 1000 1000
                         (take j quiet_schedule) waiting_store) = None)
       \<and> poll_time 1000 (take k quiet_schedule) - 1000 = 60500)
   \<and> maxWait < poll_time 1001 quiet_schedule - 1000
   \<and> (\<exists>k\<le>121.
         fst (wait_loop ''s1'' ''http://localhost:8000/record/s1'' 1000 1001
                (take k quiet_schedule) waiting_store)
           = Some (timeout_prefix @ ''http://localhost:8000/record/s1'')
       \<and> (\<forall>j<k. fst (wait_loop ''s1'' ''http://localhost:8000/record/s1'' 1000 1001
                         (take j quiet_schedule) waiting_store) = None)
       \<and> 60000 < poll_time 1001 (take k quiet_schedule) - 1000
       \<and> poll_time 1001 (take k quiet_schedule) - 1000 \<le> 60500)"
proof -
  have h1: "\<forall>s'\<in>set (observed quiet_schedule waiting_store). live ''s1'' s'"
    by code_simp
  have h2: "\<forall>e\<in>set quiet_schedule. fst e \<le> 0"
    by (simp add: quiet_schedule_def)
  have h3: "maxWait < poll_time 1000 quiet_schedule - 1000"
    by code_simp
  have h4: "maxWait < poll_time 1001 quiet_schedule - 1000"
    by code_simp
  have a: "\<exists>k\<le>121.
         fst (wait_loop ''s1'' ''http://localhost:8000/record/s1'' 1000 1000
                (take k quiet_schedule) waiting_store)
           = Some (timeout_prefix @ ''http://localhost:8000/record/s1'')
       \<and> (\<forall>j<k. fst (wait_loop ''s1'' ''http://localhost:8000/record/s1'' 1000 1000
                         (take j quiet_schedule) waiting_store) = None)
       \<and> poll_time 1000 (take k quiet_schedule) - 1000 = 60500"
    using timeout_elapsed [OF h1 h2 h3, of "''http://localhost:8000/record/s1''"]
    by (simp add: maxWait_def) blast
  have b: "\<exists>k\<le>121.
         fst (wait_loop ''s1'' ''http://localhost:8000/record/s1'' 1000 1001
                (take k quiet_schedule) waiting_store)
           = Some (timeout_prefix @ ''http://localhost:8000/record/s1'')
       \<and> (\<forall>j<k. fst (wait_loop ''s1'' ''http://localhost:8000/record/s1'' 1000 1001
                         (take j quiet_schedule) waiting_store) = None)
       \<and> 60000 < poll_time 1001 (take k quiet_schedule) - 1000
       \<and> poll_time 1001 (take k quiet_schedule) - 1000 \<le> 60500"
    using timeout_elapsed [OF h1 h2 h4, of "''http://localhost:8000/record/s1''"]
    by (simp add: maxWait_def) blast
  show ?thesis
    unfolding list_all_iff using h1 h2 h3 h4 a b by blast
qed

text \<open>
  The claim as stated puts the elapsed time of every run in \<open>[C, C + P)\<close>. In the run with
  sleeps of exactly 500 ms and the first test at the start reading, the loop is still
  waiting after 120 sleeps (elapsed 60000) and returns after the 121st, at 60500 ms, which
  is outside that interval.
\<close>

theorem timeout_elapsed_counterexample:
  "fst (wait_loop ''s1'' ''http://localhost:8000/record/s1'' 1000 1000
          (replicate 120 (0, [])) waiting_store) = None
   \<and> fst (wait_loop ''s1'' ''http://localhost:8000/record/s1'' 1000 1000
          (replicate 121 (0, [])) waiting_store)
       = Some (timeout_prefix @ ''http://localhost:8000/record/s1'')
   \<and> \<not> (maxWait \<le> poll_time 1000 (replicate 121 (0, [])) - 1000
         \<and> poll_time 1000 (replicate 121 (0, [])) - 1000 < maxWait + 500)"
  by code_simp

end
